theory Spec2Isabelle
  imports Main "HOL-Library.Sublist"
begin

section \<open>The crossbar example script of OpenQL\<close>

text \<open>
  The source \<^verbatim>\<open>ql/arch/crossbar/example.py\<close> is a straight-line Python module. After
  its two import statements have bound the names \<^verbatim>\<open>os\<close> and \<^verbatim>\<open>ql\<close>, it computes two
  paths with \<^verbatim>\<open>os.path\<close> and calls into the OpenQL compiler library. Neither
  \<^verbatim>\<open>os.path\<close> nor OpenQL is code of this repository, so both are parameters of the
  model: the script is embedded as a function of the modules it was given, of
  \<^verbatim>\<open>__file__\<close>, and of the state of the process it runs in.
\<close>

subsection \<open>Calls into the library\<close>

text \<open>
  The entry points of OpenQL that the module text mentions, with their arguments.
  \<open>'o\<close> is the type of whatever values the library returns (the script stores them in
  \<^verbatim>\<open>platform\<close>, \<^verbatim>\<open>program\<close> and \<^verbatim>\<open>kernel\<close> and passes them back unchanged).
  \<open>Qasm\<close> is \<^verbatim>\<open>program.qasm()\<close>, which occurs on line 36 inside a comment only.
\<close>

datatype 'o call =
    SetOption string string
  | Platform string string
  | Program string 'o int int
  | Kernel string 'o int int
  | Gate 'o string "int list"
  | AddKernel 'o 'o
  | Compile 'o
  | Qasm 'o

text \<open>
  The process as the library can observe and change it: the current working directory,
  and everything else (file system, the library's own options and objects).
\<close>

record 's process =
  cwd :: string
  ext :: 's

text \<open>
  What the script runs against. A call into \<^verbatim>\<open>os.path\<close> returns a string or raises;
  a call into OpenQL returns a value or raises, and leaves the process in a new state
  either way. \<open>'e\<close> is the type of exceptions.
\<close>

record ('o, 's, 'e) env =
  script_file :: string
  os_path_dirname :: "string \<Rightarrow> 'e + string"
  os_path_join :: "string \<Rightarrow> string \<Rightarrow> 'e + string"
  ql :: "'o call \<Rightarrow> 's process \<Rightarrow> ('e + 'o) \<times> 's process"

subsection \<open>Runs\<close>

text \<open>
  A run is observed through a log with one entry for every call that was made: what was
  called, and what came back (\<open>Inl\<close> an exception, \<open>Inr\<close> the value returned). Beside the
  log, the state of a run holds the process and the lines that the script's own
  \<^verbatim>\<open>print\<close> statements have written.
\<close>

datatype ('o, 'e) entry =
    PathDirname string "'e + string"
  | PathJoin string string "'e + string"
  | LibCall "'o call" "'e + 'o"

record ('o, 's, 'e) world =
  proc :: "'s process"
  log :: "('o, 'e) entry list"
  printed :: "string list"

type_synonym ('o, 's, 'e, 'a) stmt =
  "('o, 's, 'e) world \<Rightarrow> ('e + 'a) \<times> ('o, 's, 'e) world"

text \<open>
  Sequencing of two statements. Python has no handler around any statement of the
  module, so an exception ends the run where it is raised.
\<close>

definition andthen ::
  "('o, 's, 'e, 'a) stmt \<Rightarrow> ('a \<Rightarrow> ('o, 's, 'e, 'b) stmt) \<Rightarrow> ('o, 's, 'e, 'b) stmt" where
  "andthen m f = (\<lambda>w. case m w of (Inl e, w') \<Rightarrow> (Inl e, w') | (Inr a, w') \<Rightarrow> f a w')"

definition dirname :: "('o, 's, 'e) env \<Rightarrow> string \<Rightarrow> ('o, 's, 'e, string) stmt" where
  "dirname E p = (\<lambda>w. let r = os_path_dirname E p
                       in (r, w\<lparr>log := log w @ [PathDirname p r]\<rparr>))"

definition join :: "('o, 's, 'e) env \<Rightarrow> string \<Rightarrow> string \<Rightarrow> ('o, 's, 'e, string) stmt" where
  "join E a b = (\<lambda>w. let r = os_path_join E a b
                      in (r, w\<lparr>log := log w @ [PathJoin a b r]\<rparr>))"

definition lib :: "('o, 's, 'e) env \<Rightarrow> 'o call \<Rightarrow> ('o, 's, 'e, 'o) stmt" where
  "lib E c = (\<lambda>w. case ql E c (proc w) of
                    (r, p') \<Rightarrow> (r, w\<lparr>proc := p', log := log w @ [LibCall c r]\<rparr>))"

definition end_of_module :: "('o, 's, 'e, unit) stmt" where
  "end_of_module = (\<lambda>w. (Inr (), w))"

subsection \<open>The module\<close>

text \<open>Lines 14 and 15: \<^verbatim>\<open>num_qubits = 2\<close> and \<^verbatim>\<open>num_creg = 0\<close>.\<close>

definition num_qubits :: int where
  "num_qubits = 2"

definition num_creg :: int where
  "num_creg = 0"

text \<open>
  Lines 5 to 34, statement by statement. The two assignments of literals above have no
  effect and are placed before the rest.
\<close>

definition example :: "('o, 's, 'e) env \<Rightarrow> ('o, 's, 'e, unit) stmt" where
  "example E =
     andthen (dirname E (script_file E)) (\<lambda>curdir.
     andthen (join E curdir ''output'') (\<lambda>output_dir.
     andthen (lib E (SetOption ''output_dir'' output_dir)) (\<lambda>_.
     andthen (lib E (SetOption ''optimize'' ''no'')) (\<lambda>_.
     andthen (lib E (SetOption ''scheduler'' ''ASAP'')) (\<lambda>_.
     andthen (lib E (SetOption ''log_level'' ''LOG_DEBUG'')) (\<lambda>_.
     andthen (join E curdir ''hardware_config_crossbar.json'') (\<lambda>config.
     andthen (lib E (Platform ''crossbar'' config)) (\<lambda>platform.
     andthen (lib E (Program ''crossbar_test'' platform num_qubits num_creg)) (\<lambda>program.
     andthen (lib E (Kernel ''test'' platform num_qubits num_creg)) (\<lambda>kernel.
     andthen (lib E (Gate kernel ''pepez'' [0])) (\<lambda>_.
     andthen (lib E (Gate kernel ''prepz'' [1])) (\<lambda>_.
     andthen (lib E (Gate kernel ''x'' [0])) (\<lambda>_.
     andthen (lib E (Gate kernel ''cnot'' [0, 1])) (\<lambda>_.
     andthen (lib E (Gate kernel ''shuttle_up'' [1])) (\<lambda>_.
     andthen (lib E (Gate kernel ''measure'' [1])) (\<lambda>_.
     andthen (lib E (AddKernel program kernel)) (\<lambda>_.
     andthen (lib E (Compile program)) (\<lambda>_.
     end_of_module))))))))))))))))))"

text \<open>A run of the module in a process \<open>p\<close>: nothing logged, nothing printed yet.\<close>

definition run :: "('o, 's, 'e) env \<Rightarrow> 's process \<Rightarrow> ('e + unit) \<times> ('o, 's, 'e) world" where
  "run E p = example E \<lparr>proc = p, log = [], printed = []\<rparr>"

subsection \<open>Observing a run\<close>

definition completes :: "('o, 's, 'e) env \<Rightarrow> 's process \<Rightarrow> bool" where
  "completes E p \<longleftrightarrow> fst (run E p) = Inr ()"

text \<open>The exception an entry of the log ended with, if it did.\<close>

fun raised :: "('o, 'e) entry \<Rightarrow> 'e option" where
  "raised (PathDirname p r) = (case r of Inl e \<Rightarrow> Some e | Inr _ \<Rightarrow> None)"
| "raised (PathJoin a b r) = (case r of Inl e \<Rightarrow> Some e | Inr _ \<Rightarrow> None)"
| "raised (LibCall c r) = (case r of Inl e \<Rightarrow> Some e | Inr _ \<Rightarrow> None)"

text \<open>The calls into OpenQL among the entries of a log, in the order they were made.\<close>

fun call_of :: "('o, 'e) entry \<Rightarrow> 'o call list" where
  "call_of (LibCall c r) = [c]"
| "call_of (PathDirname p r) = []"
| "call_of (PathJoin a b r) = []"

definition lib_calls :: "('o, 'e) entry list \<Rightarrow> 'o call list" where
  "lib_calls es = concat (map call_of es)"

definition calls :: "('o, 's, 'e) env \<Rightarrow> 's process \<Rightarrow> 'o call list" where
  "calls E p = lib_calls (log (snd (run E p)))"

text \<open>The name of the library function behind a call.\<close>

fun name_of :: "'o call \<Rightarrow> string" where
  "name_of (SetOption k v) = ''set_option''"
| "name_of (Platform n c) = ''Platform''"
| "name_of (Program n pl nq nc) = ''Program''"
| "name_of (Kernel n pl nq nc) = ''Kernel''"
| "name_of (Gate k n qs) = ''gate''"
| "name_of (AddKernel pg k) = ''add_kernel''"
| "name_of (Compile pg) = ''compile''"
| "name_of (Qasm pg) = ''qasm''"

text \<open>
  The four steps of the script: setting options (1), building the platform, program and
  kernel objects (2), appending gates (3), compiling (4). Reading the result back would
  come after that (5).
\<close>

fun phase :: "'o call \<Rightarrow> nat" where
  "phase (SetOption k v) = 1"
| "phase (Platform n c) = 2"
| "phase (Program n pl nq nc) = 2"
| "phase (Kernel n pl nq nc) = 2"
| "phase (Gate k n qs) = 3"
| "phase (AddKernel pg k) = 4"
| "phase (Compile pg) = 4"
| "phase (Qasm pg) = 5"

text \<open>Gate invocations: the object the gate is appended to, the gate name, the qubits.\<close>

fun gate_of :: "'o call \<Rightarrow> ('o \<times> string \<times> int list) list" where
  "gate_of (Gate k n qs) = [(k, n, qs)]"
| "gate_of _ = []"

definition gate_calls :: "'o call list \<Rightarrow> ('o \<times> string \<times> int list) list" where
  "gate_calls cs = concat (map gate_of cs)"

text \<open>Options set: key and value.\<close>

fun option_of :: "'o call \<Rightarrow> (string \<times> string) list" where
  "option_of (SetOption k v) = [(k, v)]"
| "option_of _ = []"

definition option_calls :: "'o call list \<Rightarrow> (string \<times> string) list" where
  "option_calls cs = concat (map option_of cs)"

text \<open>Constructor calls, and the values that the constructors returned during a run.\<close>

fun is_constructor :: "'o call \<Rightarrow> bool" where
  "is_constructor (Platform n c) = True"
| "is_constructor (Program n pl nq nc) = True"
| "is_constructor (Kernel n pl nq nc) = True"
| "is_constructor _ = False"

fun constructed_by :: "('o, 'e) entry \<Rightarrow> 'o list" where
  "constructed_by (LibCall c (Inr v)) = (if is_constructor c then [v] else [])"
| "constructed_by _ = []"

definition constructed :: "('o, 's, 'e) env \<Rightarrow> 's process \<Rightarrow> 'o list" where
  "constructed E p = concat (map constructed_by (log (snd (run E p))))"

text \<open>
  The number of qubits a constructor call declares, and the qubit indices a gate call
  targets.
\<close>

fun declares :: "'o call \<Rightarrow> int list" where
  "declares (Program n pl nq nc) = [nq]"
| "declares (Kernel n pl nq nc) = [nq]"
| "declares _ = []"

fun targets :: "'o call \<Rightarrow> int list" where
  "targets (Gate k n qs) = qs"
| "targets _ = []"

text \<open>The calls that take a platform, a qubit count and a classical register count.\<close>

fun sized :: "'o call \<Rightarrow> bool" where
  "sized (Program n pl nq nc) = True"
| "sized (Kernel n pl nq nc) = True"
| "sized _ = False"

text \<open>
  The file system paths among the arguments: the value of the option \<^verbatim>\<open>output_dir\<close>
  and the configuration file of a platform.
\<close>

fun path_of :: "'o call \<Rightarrow> string list" where
  "path_of (SetOption k v) = (if k = ''output_dir'' then [v] else [])"
| "path_of (Platform n c) = [c]"
| "path_of _ = []"

definition paths_passed :: "'o call list \<Rightarrow> string list" where
  "paths_passed cs = concat (map path_of cs)"

text \<open>
  Replaying a log against the environment, from the process state \<open>p\<close>: every entry must
  hold what the environment answers at that point. The result is the process state after
  the last entry.
\<close>

fun replay :: "('o, 's, 'e) env \<Rightarrow> 's process \<Rightarrow> ('o, 'e) entry list \<Rightarrow> 's process option" where
  "replay E p [] = Some p"
| "replay E p (PathDirname a r # es) =
     (if os_path_dirname E a = r then replay E p es else None)"
| "replay E p (PathJoin a b r # es) =
     (if os_path_join E a b = r then replay E p es else None)"
| "replay E p (LibCall c r # es) =
     (if fst (ql E c p) = r then replay E (snd (ql E c p)) es else None)"

text \<open>
  A statement is transparent when it does nothing but make calls: it extends the log by
  what the environment answered, changes the process only through these calls, prints
  nothing, goes on after every call that returned, and ends with the exception of the
  last call exactly when that call raised.
\<close>

definition transparent :: "('o, 's, 'e) env \<Rightarrow> ('o, 's, 'e, 'a) stmt \<Rightarrow> bool" where
  "transparent E m \<longleftrightarrow> (\<forall>w r w'. m w = (r, w') \<longrightarrow>
     (\<exists>new. log w' = log w @ new \<and> replay E (proc w) new = Some (proc w') \<and>
        printed w' = printed w \<and>
        (\<forall>x\<in>set (butlast new). raised x = None) \<and>
        (case r of Inl e \<Rightarrow> new \<noteq> [] \<and> raised (last new) = Some e
                 | Inr _ \<Rightarrow> \<forall>x\<in>set new. raised x = None)))"

text \<open>
  The fifteen calls into OpenQL of lines 9 to 34, in program order, given the two paths
  and the three values that the constructors returned.
\<close>

definition script_calls :: "string \<Rightarrow> string \<Rightarrow> 'o \<Rightarrow> 'o \<Rightarrow> 'o \<Rightarrow> 'o call list" where
  "script_calls out cfg pl pg k =
    [SetOption ''output_dir'' out, SetOption ''optimize'' ''no'',
     SetOption ''scheduler'' ''ASAP'', SetOption ''log_level'' ''LOG_DEBUG'',
     Platform ''crossbar'' cfg, Program ''crossbar_test'' pl 2 0, Kernel ''test'' pl 2 0,
     Gate k ''pepez'' [0], Gate k ''prepz'' [1], Gate k ''x'' [0], Gate k ''cnot'' [0, 1],
     Gate k ''shuttle_up'' [1], Gate k ''measure'' [1], AddKernel pg k, Compile pg]"

text \<open>A call into OpenQL raised during the run.\<close>

definition library_raised :: "('o, 's, 'e) env \<Rightarrow> 's process \<Rightarrow> bool" where
  "library_raised E p \<longleftrightarrow>
     (\<exists>x\<in>set (log (snd (run E p))). call_of x \<noteq> [] \<and> raised x \<noteq> None)"

text \<open>
  The paths that lines 5, 6 and 16 compute from \<^verbatim>\<open>__file__\<close>, as far as \<^verbatim>\<open>os.path\<close>
  returns them: the output directory, then the configuration file.
\<close>

definition script_paths :: "('o, 's, 'e) env \<Rightarrow> string list" where
  "script_paths E =
     (case os_path_dirname E (script_file E) of
        Inl _ \<Rightarrow> []
      | Inr curdir \<Rightarrow>
          (case os_path_join E curdir ''output'' of
             Inl _ \<Rightarrow> []
           | Inr output_dir \<Rightarrow>
               (case os_path_join E curdir ''hardware_config_crossbar.json'' of
                  Inl _ \<Rightarrow> [output_dir]
                | Inr config \<Rightarrow> [output_dir, config])))"

text \<open>
  The calls into OpenQL that these paths allow, with the positions 0, 1 and 2 in place
  of the values that the three constructors return.
\<close>

definition template :: "('o, 's, 'e) env \<Rightarrow> nat call list" where
  "template E =
     (case script_paths E of
        [] \<Rightarrow> []
      | [output_dir] \<Rightarrow> take 4 (script_calls output_dir [] 0 1 2)
      | output_dir # config # _ \<Rightarrow> script_calls output_dir config 0 1 2)"

subsection \<open>Environments to run the script in\<close>

text \<open>
  The functions of \<^verbatim>\<open>os.path\<close> on a POSIX system, on strings: \<^verbatim>\<open>dirname\<close> cuts
  the path after its last slash and strips the trailing slashes of what is left, unless
  it consists of slashes only; \<^verbatim>\<open>join\<close> puts a slash between its arguments, unless the
  second one is absolute or the first one is empty or ends in a slash. Neither raises.
\<close>

definition posix_dirname :: "string \<Rightarrow> 'e + string" where
  "posix_dirname p =
     (let head = rev (dropWhile (\<lambda>c. c \<noteq> CHR ''/'') (rev p))
      in if head \<noteq> [] \<and> head \<noteq> replicate (length head) (CHR ''/'')
         then Inr (rev (dropWhile (\<lambda>c. c = CHR ''/'') (rev head)))
         else Inr head)"

definition posix_join :: "string \<Rightarrow> string \<Rightarrow> 'e + string" where
  "posix_join a b =
     (if b \<noteq> [] \<and> hd b = CHR ''/'' then Inr b
      else if a = [] \<or> last a = CHR ''/'' then Inr (a @ b)
      else Inr (a @ ''/'' @ b))"

text \<open>
  Three stand-ins for the library. The first accepts every call and numbers what it
  returns. The second knows the gates of a crossbar configuration and raises for any
  other gate name. The third keeps no state of its own and returns the name of what was
  constructed; only compiling leaves a trace in the process.
\<close>

definition accepting :: "nat call \<Rightarrow> nat process \<Rightarrow> (string + nat) \<times> nat process" where
  "accepting c p = (Inr (ext p), p\<lparr>ext := Suc (ext p)\<rparr>)"

definition known_gates :: "string list" where
  "known_gates = [''prepz'', ''x'', ''cnot'', ''shuttle_up'', ''measure'']"

fun strict :: "nat call \<Rightarrow> nat process \<Rightarrow> (string + nat) \<times> nat process" where
  "strict (Gate k n qs) p =
     (if n \<in> set known_gates then (Inr (ext p), p\<lparr>ext := Suc (ext p)\<rparr>)
      else (Inl (''unknown gate '' @ n), p))"
| "strict c p = (Inr (ext p), p\<lparr>ext := Suc (ext p)\<rparr>)"


definition script_path :: string where
  "script_path = ''/OpenQL/ql/arch/crossbar/example.py''"

definition accepting_env :: "(nat, nat, string) env" where
  "accepting_env = \<lparr>script_file = script_path, os_path_dirname = posix_dirname,
                     os_path_join = posix_join, ql = accepting\<rparr>"

definition strict_env :: "(nat, nat, string) env" where
  "strict_env = \<lparr>script_file = script_path, os_path_dirname = posix_dirname,
                    os_path_join = posix_join, ql = strict\<rparr>"


definition home :: "nat process" where
  "home = \<lparr>cwd = ''/home/user'', ext = 0\<rparr>"

definition elsewhere :: "nat process" where
  "elsewhere = \<lparr>cwd = ''/tmp'', ext = 7\<rparr>"


section \<open>Properties of a run\<close>

subsection \<open>Lists\<close>

lemma prefix_concat_map: "prefix xs ys \<Longrightarrow> prefix (concat (map f xs)) (concat (map f ys))"
  by (auto simp: prefix_def)

lemma prefix_butlast:
  assumes "prefix xs ys"
  shows "prefix (butlast xs) (butlast ys)"
proof -
  from assms obtain zs where ys: "ys = xs @ zs"
    by (auto simp: prefix_def)
  show ?thesis
  proof (cases "zs = []")
    case True
    with ys show ?thesis by simp
  next
    case False
    with ys have "butlast ys = xs @ butlast zs"
      by (simp add: butlast_append)
    moreover have "prefix (butlast xs) xs"
      by (rule prefixeq_butlast)
    ultimately show ?thesis
      by (simp add: prefix_order.trans)
  qed
qed

lemma prefix_sorted: "prefix xs ys \<Longrightarrow> sorted ys \<Longrightarrow> sorted xs"
  by (auto simp: prefix_def sorted_append)

lemma prefix_filter_length: "prefix xs ys \<Longrightarrow> length (filter P xs) \<le> length (filter P ys)"
  by (auto simp: prefix_def)

subsection \<open>Steps and sequencing\<close>

lemma andthen_returnsE:
  assumes "andthen m f w = (Inr b, w'')"
  obtains a w' where "m w = (Inr a, w')" and "f a w' = (Inr b, w'')"
  using assms by (auto simp: andthen_def split: prod.splits sum.splits)

lemma andthen_raisesE:
  assumes "andthen m f w = (Inl e, w'')"
  obtains (now) "m w = (Inl e, w'')"
        | (later) a w' where "m w = (Inr a, w')" and "f a w' = (Inl e, w'')"
  using assms by (auto simp: andthen_def split: prod.splits sum.splits)

lemma lib_step: "lib E c w = (r, w') \<Longrightarrow> log w' = log w @ [LibCall c r]"
  by (auto simp: lib_def split: prod.splits)

lemma dirname_step:
  "dirname E a w = (r, w') \<Longrightarrow> log w' = log w @ [PathDirname a r] \<and> os_path_dirname E a = r"
  by (auto simp: dirname_def Let_def)

lemma join_step:
  "join E a b w = (r, w') \<Longrightarrow> log w' = log w @ [PathJoin a b r] \<and> os_path_join E a b = r"
  by (auto simp: join_def Let_def)

lemma lib_calls_append: "lib_calls (xs @ ys) = lib_calls xs @ lib_calls ys"
  by (simp add: lib_calls_def)

subsection \<open>The shape of a run\<close>

lemma example_returns:
  "example E w = (Inr u, w') \<Longrightarrow>
   \<exists>d out cfg pl pg k.
     os_path_dirname E (script_file E) = Inr d \<and>
     os_path_join E d ''output'' = Inr out \<and>
     os_path_join E d ''hardware_config_crossbar.json'' = Inr cfg \<and>
     LibCall (Platform ''crossbar'' cfg) (Inr pl) \<in> set (log w') \<and>
     LibCall (Program ''crossbar_test'' pl 2 0) (Inr pg) \<in> set (log w') \<and>
     LibCall (Kernel ''test'' pl 2 0) (Inr k) \<in> set (log w') \<and>
     lib_calls (log w') = lib_calls (log w) @ script_calls out cfg pl pg k \<and>
     concat (map constructed_by (log w')) = concat (map constructed_by (log w)) @ [pl, pg, k]"
  unfolding example_def
  by (elim andthen_returnsE; (drule lib_step dirname_step join_step)+;
      simp add: end_of_module_def script_calls_def num_qubits_def num_creg_def lib_calls_def)

lemma example_raises:
  "example E w = (Inl e, w') \<Longrightarrow>
   \<exists>out cfg pl pg k.
     prefix (lib_calls (log w')) (lib_calls (log w) @ script_calls out cfg pl pg k)"
  unfolding example_def
  by (elim andthen_raisesE; (drule lib_step dirname_step join_step)+;
      simp add: end_of_module_def script_calls_def num_qubits_def num_creg_def lib_calls_def)

lemma run_completes:
  fixes E :: "('o, 's, 'e) env"
  assumes "completes E p"
  obtains d out cfg pl pg k where
    "os_path_dirname E (script_file E) = Inr d"
    "os_path_join E d ''output'' = Inr out"
    "os_path_join E d ''hardware_config_crossbar.json'' = Inr cfg"
    "LibCall (Platform ''crossbar'' cfg) (Inr pl) \<in> set (log (snd (run E p)))"
    "LibCall (Program ''crossbar_test'' pl 2 0) (Inr pg) \<in> set (log (snd (run E p)))"
    "LibCall (Kernel ''test'' pl 2 0) (Inr k) \<in> set (log (snd (run E p)))"
    "calls E p = script_calls out cfg pl pg k"
    "constructed E p = [pl, pg, k]"
proof -
  define w :: "('o, 's, 'e) world" where "w = \<lparr>proc = p, log = [], printed = []\<rparr>"
  obtain w' where ex: "example E w = (Inr (), w')"
    using assms by (cases "run E p") (simp add: completes_def run_def w_def)
  then have w': "snd (run E p) = w'"
    by (simp add: run_def w_def)
  have empty: "log w = []"
    by (simp add: w_def)
  from example_returns[OF ex] obtain d out cfg pl pg k where
    "os_path_dirname E (script_file E) = Inr d"
    "os_path_join E d ''output'' = Inr out"
    "os_path_join E d ''hardware_config_crossbar.json'' = Inr cfg"
    "LibCall (Platform ''crossbar'' cfg) (Inr pl) \<in> set (log w')"
    "LibCall (Program ''crossbar_test'' pl 2 0) (Inr pg) \<in> set (log w')"
    "LibCall (Kernel ''test'' pl 2 0) (Inr k) \<in> set (log w')"
    "lib_calls (log w') = lib_calls (log w) @ script_calls out cfg pl pg k"
    "concat (map constructed_by (log w')) = concat (map constructed_by (log w)) @ [pl, pg, k]"
    by (elim exE conjE)
  then show thesis
    using that[of d out cfg pl pg k] by (simp add: w' empty calls_def constructed_def lib_calls_def)
qed

lemma run_prefix: "\<exists>out cfg pl pg k. prefix (calls E p) (script_calls out cfg pl pg k)"
proof (cases "run E p")
  case (Pair r w')
  show ?thesis
  proof (cases r)
    case (Inl e)
    with Pair have "example E \<lparr>proc = p, log = [], printed = []\<rparr> = (Inl e, w')"
      by (simp add: run_def)
    from example_raises[OF this] have
      "\<exists>out cfg pl pg k. prefix (lib_calls (log w')) (script_calls out cfg pl pg k)"
      by (simp add: lib_calls_def)
    with Pair show ?thesis
      by (simp add: calls_def)
  next
    case (Inr u)
    with Pair have "completes E p" by (simp add: completes_def)
    then obtain out cfg pl pg k where "calls E p = script_calls out cfg pl pg k"
      by (rule run_completes)
    then have "prefix (calls E p) (script_calls out cfg pl pg k)" by simp
    then show ?thesis by blast
  qed
qed

subsection \<open>Transparency\<close>

lemma replay_append:
  "replay E p (xs @ ys) = (case replay E p xs of None \<Rightarrow> None | Some p' \<Rightarrow> replay E p' ys)"
  by (induction E p xs rule: replay.induct) auto


lemma transparent_lib: "transparent E (lib E c)"
  by (auto simp: transparent_def lib_def split: prod.splits sum.splits)

lemma transparent_dirname: "transparent E (dirname E a)"
  by (auto simp: transparent_def dirname_def Let_def split: sum.splits)

lemma transparent_join: "transparent E (join E a b)"
  by (auto simp: transparent_def join_def Let_def split: sum.splits)

lemma transparent_end: "transparent E end_of_module"
  by (auto simp: transparent_def end_of_module_def)

lemma transparent_andthen:
  assumes m: "transparent E m" and f: "\<And>a. transparent E (f a)"
  shows "transparent E (andthen m f)"
  unfolding transparent_def
proof (intro allI impI)
  fix w r w''
  assume both: "andthen m f w = (r, w'')"
  obtain r1 w1 where first: "m w = (r1, w1)"
    by (cases "m w")
  from m first obtain n1 where n1: "log w1 = log w @ n1"
      "replay E (proc w) n1 = Some (proc w1)" "printed w1 = printed w"
      "\<forall>x\<in>set (butlast n1). raised x = None"
      "case r1 of Inl e \<Rightarrow> n1 \<noteq> [] \<and> raised (last n1) = Some e
                | Inr _ \<Rightarrow> \<forall>x\<in>set n1. raised x = None"
    unfolding transparent_def by blast
  show "\<exists>new. log w'' = log w @ new \<and> replay E (proc w) new = Some (proc w'') \<and>
          printed w'' = printed w \<and> (\<forall>x\<in>set (butlast new). raised x = None) \<and>
          (case r of Inl e \<Rightarrow> new \<noteq> [] \<and> raised (last new) = Some e
                   | Inr _ \<Rightarrow> \<forall>x\<in>set new. raised x = None)"
  proof (cases r1)
    case (Inl e)
    with both first have "r = Inl e" and "w'' = w1"
      by (auto simp: andthen_def)
    with n1 Inl show ?thesis by auto
  next
    case (Inr a)
    with both first have second: "f a w1 = (r, w'')"
      by (auto simp: andthen_def)
    from f[of a] second obtain n2 where n2: "log w'' = log w1 @ n2"
        "replay E (proc w1) n2 = Some (proc w'')" "printed w'' = printed w1"
        "\<forall>x\<in>set (butlast n2). raised x = None"
        "case r of Inl e \<Rightarrow> n2 \<noteq> [] \<and> raised (last n2) = Some e
                 | Inr _ \<Rightarrow> \<forall>x\<in>set n2. raised x = None"
      unfolding transparent_def by blast
    from Inr n1 have ok1: "\<forall>x\<in>set n1. raised x = None"
      by simp
    have "log w'' = log w @ (n1 @ n2)"
      using n1 n2 by simp
    moreover have "replay E (proc w) (n1 @ n2) = Some (proc w'')"
      using n1 n2 by (simp add: replay_append)
    moreover have "printed w'' = printed w"
      using n1 n2 by simp
    moreover have "\<forall>x\<in>set (butlast (n1 @ n2)). raised x = None"
      using ok1 n2(4) by (auto simp: butlast_append dest: in_set_butlastD)
    moreover have "case r of Inl e \<Rightarrow> n1 @ n2 \<noteq> [] \<and> raised (last (n1 @ n2)) = Some e
                           | Inr _ \<Rightarrow> \<forall>x\<in>set (n1 @ n2). raised x = None"
      using ok1 n2(5) by (cases r) auto
    ultimately show ?thesis by blast
  qed
qed

lemma transparent_example: "transparent E (example E)"
  unfolding example_def
  by (intro transparent_andthen transparent_lib transparent_dirname transparent_join
        transparent_end)

lemma run_transparent:
  fixes E :: "('o, 's, 'e) env"
  obtains "replay E p (log (snd (run E p))) = Some (proc (snd (run E p)))"
    and "printed (snd (run E p)) = []"
    and "\<forall>x\<in>set (butlast (log (snd (run E p)))). raised x = None"
    and "case fst (run E p) of
           Inl e \<Rightarrow> log (snd (run E p)) \<noteq> [] \<and> raised (last (log (snd (run E p)))) = Some e
         | Inr _ \<Rightarrow> \<forall>x\<in>set (log (snd (run E p))). raised x = None"
proof -
  define w :: "('o, 's, 'e) world" where "w = \<lparr>proc = p, log = [], printed = []\<rparr>"
  obtain r w' where rw: "example E w = (r, w')"
    by (cases "example E w")
  have start: "log w = []" "proc w = p" "printed w = []"
    by (simp_all add: w_def)
  have result: "fst (run E p) = r" "snd (run E p) = w'"
    using rw by (simp_all add: run_def w_def)
  from transparent_example[of E] rw obtain new where new: "log w' = log w @ new"
      "replay E (proc w) new = Some (proc w')" "printed w' = printed w"
      "\<forall>x\<in>set (butlast new). raised x = None"
      "case r of Inl e \<Rightarrow> new \<noteq> [] \<and> raised (last new) = Some e
               | Inr _ \<Rightarrow> \<forall>x\<in>set new. raised x = None"
    unfolding transparent_def by blast
  from new(1) start have eq: "new = log w'"
    by simp
  have "replay E p (log (snd (run E p))) = Some (proc (snd (run E p)))"
    using new(2) by (simp add: eq start result)
  moreover have "printed (snd (run E p)) = []"
    using new(3) by (simp add: start result)
  moreover have "\<forall>x\<in>set (butlast (log (snd (run E p)))). raised x = None"
    using new(4) by (simp add: eq result)
  moreover have "case fst (run E p) of
           Inl e \<Rightarrow> log (snd (run E p)) \<noteq> [] \<and> raised (last (log (snd (run E p)))) = Some e
         | Inr _ \<Rightarrow> \<forall>x\<in>set (log (snd (run E p))). raised x = None"
    using new(5) unfolding eq result .
  ultimately show thesis
    by (rule that)
qed

subsection \<open>Paths and templates\<close>

lemma paths_passed_append: "paths_passed (xs @ ys) = paths_passed xs @ paths_passed ys"
  by (simp add: paths_passed_def)

lemma example_returns_paths:
  assumes "example E w = (Inr u, w')"
  shows "paths_passed (lib_calls (log w')) = paths_passed (lib_calls (log w)) @ script_paths E"
proof -
  from example_returns[OF assms] obtain d out cfg pl pg k where
    "os_path_dirname E (script_file E) = Inr d"
    "os_path_join E d ''output'' = Inr out"
    "os_path_join E d ''hardware_config_crossbar.json'' = Inr cfg"
    "lib_calls (log w') = lib_calls (log w) @ script_calls out cfg pl pg k"
    by (elim exE conjE)
  then show ?thesis
    by (simp add: paths_passed_append script_paths_def)
       (simp add: paths_passed_def script_calls_def)
qed

lemma example_raises_paths:
  "example E w = (Inl e, w') \<Longrightarrow>
   prefix (paths_passed (lib_calls (log w'))) (paths_passed (lib_calls (log w)) @ script_paths E)"
  unfolding example_def
  by (elim andthen_raisesE; (drule lib_step dirname_step join_step)+)
     (simp_all add: end_of_module_def lib_calls_def paths_passed_def script_paths_def
        split: sum.splits)

lemma example_raises_template:
  "example E w = (Inl e, w') \<Longrightarrow>
   (log w' \<noteq> [] \<and> call_of (last (log w')) \<noteq> [] \<and> raised (last (log w')) = Some e) \<or>
   lib_calls (log w') = lib_calls (log w) @ map (map_call f) (template E)"
  unfolding example_def
  by (elim andthen_raisesE; (drule lib_step dirname_step join_step)+)
     (simp_all add: end_of_module_def lib_calls_def template_def script_paths_def
        script_calls_def split: sum.splits)

lemma example_returns_template:
  assumes "example E w = (Inr u, w')"
  shows "\<exists>pl pg k.
     concat (map constructed_by (log w')) = concat (map constructed_by (log w)) @ [pl, pg, k] \<and>
     lib_calls (log w') = lib_calls (log w) @ map (map_call (\<lambda>i. [pl, pg, k] ! i)) (template E)"
proof -
  from example_returns[OF assms] obtain d out cfg pl pg k where
    "os_path_dirname E (script_file E) = Inr d"
    "os_path_join E d ''output'' = Inr out"
    "os_path_join E d ''hardware_config_crossbar.json'' = Inr cfg"
    and cs: "lib_calls (log w') = lib_calls (log w) @ script_calls out cfg pl pg k"
    and objs: "concat (map constructed_by (log w')) =
                 concat (map constructed_by (log w)) @ [pl, pg, k]"
    by (elim exE conjE)
  then have "template E = script_calls out cfg 0 1 2"
    by (simp add: template_def script_paths_def)
  then have "map (map_call (\<lambda>i. [pl, pg, k] ! i)) (template E) = script_calls out cfg pl pg k"
    by (simp add: script_calls_def)
  with cs objs show ?thesis
    by (intro exI[of _ pl] exI[of _ pg] exI[of _ k] conjI) simp_all
qed

lemma run_paths_prefix: "prefix (paths_passed (calls E p)) (script_paths E)"
proof (cases "run E p")
  case (Pair r w')
  then have ex: "example E \<lparr>proc = p, log = [], printed = []\<rparr> = (r, w')"
    by (simp add: run_def)
  have "prefix (paths_passed (lib_calls (log w'))) (script_paths E)"
  proof (cases r)
    case (Inl e)
    with ex example_raises_paths[of E "\<lparr>proc = p, log = [], printed = []\<rparr>" e w']
    show ?thesis
      by (simp add: lib_calls_def paths_passed_def)
  next
    case (Inr u)
    with ex example_returns_paths[of E "\<lparr>proc = p, log = [], printed = []\<rparr>" u w']
    show ?thesis
      by (simp add: lib_calls_def paths_passed_def)
  qed
  with Pair show ?thesis
    by (simp add: calls_def)
qed

lemma run_paths_complete:
  assumes "completes E p"
  shows "paths_passed (calls E p) = script_paths E"
proof (cases "run E p")
  case (Pair r w')
  with assms have "example E \<lparr>proc = p, log = [], printed = []\<rparr> = (Inr (), w')"
    by (simp add: run_def completes_def)
  from example_returns_paths[OF this] Pair show ?thesis
    by (simp add: calls_def lib_calls_def paths_passed_def)
qed

lemma completes_quiet:
  assumes "completes E p"
  shows "\<not> library_raised E p"
proof -
  have "case fst (run E p) of
           Inl e \<Rightarrow> log (snd (run E p)) \<noteq> [] \<and> raised (last (log (snd (run E p)))) = Some e
         | Inr _ \<Rightarrow> \<forall>x\<in>set (log (snd (run E p))). raised x = None"
    by (rule run_transparent[of E p])
  with assms have "\<forall>x\<in>set (log (snd (run E p))). raised x = None"
    by (simp add: completes_def)
  then show ?thesis
    by (simp add: library_raised_def)
qed

lemma calls_template:
  fixes E :: "('o, 's, 'e) env"
  assumes "\<not> library_raised E p"
  shows "calls E p = map (map_call (\<lambda>i. constructed E p ! i)) (template E)"
proof (cases "run E p")
  case (Pair r w')
  define w :: "('o, 's, 'e) world" where "w = \<lparr>proc = p, log = [], printed = []\<rparr>"
  from Pair have ex: "example E w = (r, w')"
    by (simp add: run_def w_def)
  have w: "log w = []"
    by (simp add: w_def)
  from Pair have w': "snd (run E p) = w'"
    by simp
  show ?thesis
  proof (cases r)
    case (Inl e)
    with ex have "example E w = (Inl e, w')"
      by simp
    from example_raises_template[OF this, of "\<lambda>i. constructed E p ! i"]
    show ?thesis
    proof
      assume bad: "log w' \<noteq> [] \<and> call_of (last (log w')) \<noteq> [] \<and>
                     raised (last (log w')) = Some e"
      then have "last (log w') \<in> set (log w')"
        by simp
      with bad have "library_raised E p"
        unfolding library_raised_def w' by (intro bexI[of _ "last (log w')"]) simp_all
      with assms show ?thesis
        by simp
    next
      assume "lib_calls (log w') =
                lib_calls (log w) @ map (map_call (\<lambda>i. constructed E p ! i)) (template E)"
      then show ?thesis
        by (simp add: calls_def w' w lib_calls_def)
    qed
  next
    case (Inr u)
    with ex have "example E w = (Inr u, w')"
      by simp
    from example_returns_template[OF this] obtain pl pg k where
      objs: "concat (map constructed_by (log w')) =
               concat (map constructed_by (log w)) @ [pl, pg, k]"
      and cs: "lib_calls (log w') =
                 lib_calls (log w) @ map (map_call (\<lambda>i. [pl, pg, k] ! i)) (template E)"
      by (elim exE conjE)
    from objs have "constructed E p = [pl, pg, k]"
      by (simp add: constructed_def w' w)
    with cs show ?thesis
      by (simp add: calls_def w' w lib_calls_def)
  qed
qed

subsection \<open>Running the script\<close>

lemma script_dir: "posix_dirname script_path = Inr ''/OpenQL/ql/arch/crossbar''"
  by (simp add: posix_dirname_def script_path_def)

lemma output_path:
  "posix_join ''/OpenQL/ql/arch/crossbar'' ''output'' = Inr ''/OpenQL/ql/arch/crossbar/output''"
  by (simp add: posix_join_def)

lemma config_path:
  "posix_join ''/OpenQL/ql/arch/crossbar'' ''hardware_config_crossbar.json'' =
     Inr ''/OpenQL/ql/arch/crossbar/hardware_config_crossbar.json''"
  by (simp add: posix_join_def)

lemma andthen_eval:
  "andthen m f w = (case fst (m w) of Inl e \<Rightarrow> (Inl e, snd (m w)) | Inr a \<Rightarrow> f a (snd (m w)))"
  by (simp add: andthen_def split: prod.splits sum.splits)

lemma lib_eval:
  "lib E c w = (fst (ql E c (proc w)),
                w\<lparr>proc := snd (ql E c (proc w)), log := log w @ [LibCall c (fst (ql E c (proc w)))]\<rparr>)"
  by (simp add: lib_def split: prod.splits)

lemma dirname_eval:
  "dirname E a w = (os_path_dirname E a, w\<lparr>log := log w @ [PathDirname a (os_path_dirname E a)]\<rparr>)"
  by (simp add: dirname_def Let_def)

lemma join_eval:
  "join E a b w = (os_path_join E a b, w\<lparr>log := log w @ [PathJoin a b (os_path_join E a b)]\<rparr>)"
  by (simp add: join_def Let_def)

lemmas run_eval = run_def example_def andthen_eval lib_eval dirname_eval join_eval
  end_of_module_def script_dir output_path config_path

lemma accepting_home: "completes accepting_env home"
  by (simp add: completes_def run_eval accepting_env_def accepting_def home_def)

lemma accepting_elsewhere: "completes accepting_env elsewhere"
  by (simp add: completes_def run_eval accepting_env_def accepting_def elsewhere_def)

lemma strict_home: "fst (run strict_env home) = Inl ''unknown gate pepez''"
  by (simp add: run_eval strict_env_def known_gates_def home_def)



lemma accepting_home_calls:
  "calls accepting_env home =
     script_calls ''/OpenQL/ql/arch/crossbar/output''
       ''/OpenQL/ql/arch/crossbar/hardware_config_crossbar.json'' 4 5 6"
  by (simp add: calls_def lib_calls_def run_eval accepting_env_def accepting_def home_def
        script_calls_def num_qubits_def num_creg_def)

lemma accepting_elsewhere_calls:
  "calls accepting_env elsewhere =
     script_calls ''/OpenQL/ql/arch/crossbar/output''
       ''/OpenQL/ql/arch/crossbar/hardware_config_crossbar.json'' 11 12 13"
  by (simp add: calls_def lib_calls_def run_eval accepting_env_def accepting_def elsewhere_def
        script_calls_def num_qubits_def num_creg_def)


section \<open>The claims\<close>

text \<open>
  Claim C1. In every run the gates appended are an initial segment of \<^verbatim>\<open>pepez\<close> on
  \<open>[0]\<close>, \<^verbatim>\<open>prepz\<close> on \<open>[1]\<close>, \<^verbatim>\<open>x\<close> on \<open>[0]\<close>, \<^verbatim>\<open>cnot\<close> on \<open>[0, 1]\<close>,
  \<^verbatim>\<open>shuttle_up\<close> on \<open>[1]\<close>, \<^verbatim>\<open>measure\<close> on \<open>[1]\<close>. In a run that completes they are
  exactly these six, in this order and each once, all appended to the value that the
  call \<^verbatim>\<open>Kernel("test", ...)\<close> returned; the first gate name is \<^verbatim>\<open>pepez\<close>, not
  \<^verbatim>\<open>prepz\<close>; and the gate names used are exactly \<^verbatim>\<open>pepez\<close>, \<^verbatim>\<open>prepz\<close>, \<^verbatim>\<open>x\<close>,
  \<^verbatim>\<open>cnot\<close>, \<^verbatim>\<open>shuttle_up\<close> and \<^verbatim>\<open>measure\<close>.
\<close>

theorem gates_appended:
  "prefix (map snd (gate_calls (calls E p)))
     [(''pepez'', [0]), (''prepz'', [1]), (''x'', [0]), (''cnot'', [0, 1]),
      (''shuttle_up'', [1]), (''measure'', [1])] \<and>
   (completes E p \<longrightarrow>
     (\<exists>pl k. LibCall (Kernel ''test'' pl 2 0) (Inr k) \<in> set (log (snd (run E p))) \<and>
        gate_calls (calls E p) =
          [(k, ''pepez'', [0]), (k, ''prepz'', [1]), (k, ''x'', [0]), (k, ''cnot'', [0, 1]),
           (k, ''shuttle_up'', [1]), (k, ''measure'', [1])]) \<and>
     hd (map (fst \<circ> snd) (gate_calls (calls E p))) = ''pepez'' \<and>
     hd (map (fst \<circ> snd) (gate_calls (calls E p))) \<noteq> ''prepz'' \<and>
     distinct (map snd (gate_calls (calls E p))) \<and>
     set (map (fst \<circ> snd) (gate_calls (calls E p))) =
       {''pepez'', ''prepz'', ''x'', ''cnot'', ''shuttle_up'', ''measure''})"
proof (intro conjI impI)
  obtain out cfg pl pg k where "prefix (calls E p) (script_calls out cfg pl pg k)"
    using run_prefix[of E p] by blast
  then have "prefix (map snd (gate_calls (calls E p)))
               (map snd (gate_calls (script_calls out cfg pl pg k)))"
    unfolding gate_calls_def by (intro map_mono_prefix prefix_concat_map)
  then show "prefix (map snd (gate_calls (calls E p)))
     [(''pepez'', [0]), (''prepz'', [1]), (''x'', [0]), (''cnot'', [0, 1]),
      (''shuttle_up'', [1]), (''measure'', [1])]"
    by (simp add: gate_calls_def script_calls_def)
next
  assume "completes E p"
  then obtain out cfg pl pg k where
    k: "LibCall (Kernel ''test'' pl 2 0) (Inr k) \<in> set (log (snd (run E p)))"
    and cs: "calls E p = script_calls out cfg pl pg k"
    by (rule run_completes)
  have gs: "gate_calls (calls E p) =
          [(k, ''pepez'', [0]), (k, ''prepz'', [1]), (k, ''x'', [0]), (k, ''cnot'', [0, 1]),
           (k, ''shuttle_up'', [1]), (k, ''measure'', [1])]"
    by (simp add: cs gate_calls_def script_calls_def)
  with k show "\<exists>pl k. LibCall (Kernel ''test'' pl 2 0) (Inr k) \<in> set (log (snd (run E p))) \<and>
        gate_calls (calls E p) =
          [(k, ''pepez'', [0]), (k, ''prepz'', [1]), (k, ''x'', [0]), (k, ''cnot'', [0, 1]),
           (k, ''shuttle_up'', [1]), (k, ''measure'', [1])]"
    by (intro exI[of _ pl] exI[of _ k] conjI)
  show "hd (map (fst \<circ> snd) (gate_calls (calls E p))) = ''pepez''"
    by (simp add: gs)
  show "hd (map (fst \<circ> snd) (gate_calls (calls E p))) \<noteq> ''prepz''"
    by (simp add: gs)
  show "distinct (map snd (gate_calls (calls E p)))"
    by (simp add: gs)
  show "set (map (fst \<circ> snd) (gate_calls (calls E p))) =
       {''pepez'', ''prepz'', ''x'', ''cnot'', ''shuttle_up'', ''measure''}"
    by (simp add: gs)
qed

theorem gates_appended_witness:
  "completes accepting_env home \<and>
   hd (map (fst \<circ> snd) (gate_calls (calls accepting_env home))) = ''pepez'' \<and>
   set (map (fst \<circ> snd) (gate_calls (calls accepting_env home))) =
     {''pepez'', ''prepz'', ''x'', ''cnot'', ''shuttle_up'', ''measure''}"
proof -
  have c: "completes accepting_env home"
    by (rule accepting_home)
  from gates_appended[of accepting_env home] have
    "completes accepting_env home \<longrightarrow>
       hd (map (fst \<circ> snd) (gate_calls (calls accepting_env home))) = ''pepez'' \<and>
       set (map (fst \<circ> snd) (gate_calls (calls accepting_env home))) =
         {''pepez'', ''prepz'', ''x'', ''cnot'', ''shuttle_up'', ''measure''}"
    by (elim conjE) (intro impI conjI, (erule (1) impE, elim conjE, assumption)+)
  with c show ?thesis
    by (intro conjI) (assumption, (erule (1) impE, elim conjE, assumption)+)
qed

text \<open>
  Claim C2. In every run the phases of the calls into the library never decrease (no
  call of a later phase precedes one of an earlier phase), \<^verbatim>\<open>compile\<close> is not called
  before the last call, and the names of the calls are an initial segment of: four times
  \<^verbatim>\<open>set_option\<close>, then \<^verbatim>\<open>Platform\<close>, \<^verbatim>\<open>Program\<close>, \<^verbatim>\<open>Kernel\<close>, then six times
  \<^verbatim>\<open>gate\<close>, then \<^verbatim>\<open>add_kernel\<close> and \<^verbatim>\<open>compile\<close>. In a run that completes the names
  are exactly this list, \<^verbatim>\<open>compile\<close> is called exactly once, and it is the last call.
\<close>

theorem four_phases:
  "sorted (map phase (calls E p)) \<and>
   ''compile'' \<notin> set (map name_of (butlast (calls E p))) \<and>
   prefix (map name_of (calls E p))
     [''set_option'', ''set_option'', ''set_option'', ''set_option'',
      ''Platform'', ''Program'', ''Kernel'',
      ''gate'', ''gate'', ''gate'', ''gate'', ''gate'', ''gate'',
      ''add_kernel'', ''compile''] \<and>
   (completes E p \<longrightarrow>
      map name_of (calls E p) =
        [''set_option'', ''set_option'', ''set_option'', ''set_option'',
         ''Platform'', ''Program'', ''Kernel'',
         ''gate'', ''gate'', ''gate'', ''gate'', ''gate'', ''gate'',
         ''add_kernel'', ''compile''] \<and>
      map phase (calls E p) = [1, 1, 1, 1, 2, 2, 2, 3, 3, 3, 3, 3, 3, 4, 4] \<and>
      length (filter (\<lambda>c. name_of c = ''compile'') (calls E p)) = 1 \<and>
      name_of (last (calls E p)) = ''compile'')"
proof -
  obtain out cfg pl pg k where pre: "prefix (calls E p) (script_calls out cfg pl pg k)"
    using run_prefix[of E p] by blast
  have "sorted (map phase (script_calls out cfg pl pg k))"
    by (simp add: script_calls_def)
  then have 1: "sorted (map phase (calls E p))"
    by (rule prefix_sorted[OF map_mono_prefix[OF pre]])
  have "prefix (butlast (calls E p)) (butlast (script_calls out cfg pl pg k))"
    using pre by (rule prefix_butlast)
  then have "set (butlast (calls E p)) \<subseteq> set (butlast (script_calls out cfg pl pg k))"
    by (rule set_mono_prefix)
  then have "set (map name_of (butlast (calls E p)))
               \<subseteq> set (map name_of (butlast (script_calls out cfg pl pg k)))"
    by (simp add: image_mono)
  moreover have "''compile'' \<notin> set (map name_of (butlast (script_calls out cfg pl pg k)))"
    by (simp add: script_calls_def)
  ultimately have 2: "''compile'' \<notin> set (map name_of (butlast (calls E p)))"
    by (rule contra_subsetD)
  from pre have "prefix (map name_of (calls E p)) (map name_of (script_calls out cfg pl pg k))"
    by (rule map_mono_prefix)
  then have 3: "prefix (map name_of (calls E p))
     [''set_option'', ''set_option'', ''set_option'', ''set_option'',
      ''Platform'', ''Program'', ''Kernel'',
      ''gate'', ''gate'', ''gate'', ''gate'', ''gate'', ''gate'',
      ''add_kernel'', ''compile'']"
    by (simp add: script_calls_def)
  have 4: "map name_of (calls E p) =
        [''set_option'', ''set_option'', ''set_option'', ''set_option'',
         ''Platform'', ''Program'', ''Kernel'',
         ''gate'', ''gate'', ''gate'', ''gate'', ''gate'', ''gate'',
         ''add_kernel'', ''compile''] \<and>
      map phase (calls E p) = [1, 1, 1, 1, 2, 2, 2, 3, 3, 3, 3, 3, 3, 4, 4] \<and>
      length (filter (\<lambda>c. name_of c = ''compile'') (calls E p)) = 1 \<and>
      name_of (last (calls E p)) = ''compile''" if "completes E p"
  proof -
    from that obtain out cfg pl pg k where "calls E p = script_calls out cfg pl pg k"
      by (rule run_completes)
    then show ?thesis
      by (simp add: script_calls_def)
  qed
  then have 5: "completes E p \<longrightarrow>
      map name_of (calls E p) =
        [''set_option'', ''set_option'', ''set_option'', ''set_option'',
         ''Platform'', ''Program'', ''Kernel'',
         ''gate'', ''gate'', ''gate'', ''gate'', ''gate'', ''gate'',
         ''add_kernel'', ''compile''] \<and>
      map phase (calls E p) = [1, 1, 1, 1, 2, 2, 2, 3, 3, 3, 3, 3, 3, 4, 4] \<and>
      length (filter (\<lambda>c. name_of c = ''compile'') (calls E p)) = 1 \<and>
      name_of (last (calls E p)) = ''compile''"
    by (rule impI)
  from 1 2 3 5 show ?thesis
    by (intro conjI)
qed

theorem four_phases_witness:
  "completes accepting_env home \<and>
   map phase (calls accepting_env home) = [1, 1, 1, 1, 2, 2, 2, 3, 3, 3, 3, 3, 3, 4, 4] \<and>
   name_of (last (calls accepting_env home)) = ''compile''"
  using four_phases[of accepting_env home] accepting_home by simp

text \<open>
  Claim C3. In every run the options set are an initial segment of \<^verbatim>\<open>output_dir\<close>,
  \<^verbatim>\<open>optimize\<close> = \<^verbatim>\<open>no\<close>, \<^verbatim>\<open>scheduler\<close> = \<^verbatim>\<open>ASAP\<close>, \<^verbatim>\<open>log_level\<close> =
  \<^verbatim>\<open>LOG_DEBUG\<close>, and no other key is set. In a run that completes exactly these four
  options are set, and the value of \<^verbatim>\<open>output_dir\<close> is what \<^verbatim>\<open>os.path.join\<close> returned
  for the directory of \<^verbatim>\<open>__file__\<close> and \<^verbatim>\<open>output\<close>.
\<close>

theorem options_set:
  "(\<exists>out. prefix (option_calls (calls E p))
            [(''output_dir'', out), (''optimize'', ''no''), (''scheduler'', ''ASAP''),
             (''log_level'', ''LOG_DEBUG'')]) \<and>
   set (map fst (option_calls (calls E p)))
     \<subseteq> {''output_dir'', ''optimize'', ''scheduler'', ''log_level''} \<and>
   (completes E p \<longrightarrow>
      (\<exists>d out. os_path_dirname E (script_file E) = Inr d \<and>
         os_path_join E d ''output'' = Inr out \<and>
         option_calls (calls E p) =
           [(''output_dir'', out), (''optimize'', ''no''), (''scheduler'', ''ASAP''),
            (''log_level'', ''LOG_DEBUG'')]))"
proof -
  obtain out cfg pl pg k where pre: "prefix (calls E p) (script_calls out cfg pl pg k)"
    using run_prefix[of E p] by blast
  then have opts: "prefix (option_calls (calls E p))
                     (option_calls (script_calls out cfg pl pg k))"
    unfolding option_calls_def by (rule prefix_concat_map)
  have val: "option_calls (script_calls out cfg pl pg k) =
            [(''output_dir'', out), (''optimize'', ''no''), (''scheduler'', ''ASAP''),
             (''log_level'', ''LOG_DEBUG'')]"
    by (simp add: option_calls_def script_calls_def)
  from opts have "prefix (option_calls (calls E p))
            [(''output_dir'', out), (''optimize'', ''no''), (''scheduler'', ''ASAP''),
             (''log_level'', ''LOG_DEBUG'')]"
    unfolding val .
  then have 1: "\<exists>out. prefix (option_calls (calls E p))
            [(''output_dir'', out), (''optimize'', ''no''), (''scheduler'', ''ASAP''),
             (''log_level'', ''LOG_DEBUG'')]"
    by (intro exI[of _ out])
  from opts have "set (option_calls (calls E p))
                    \<subseteq> set (option_calls (script_calls out cfg pl pg k))"
    by (rule set_mono_prefix)
  then have "fst ` set (option_calls (calls E p))
               \<subseteq> fst ` set (option_calls (script_calls out cfg pl pg k))"
    by (rule image_mono)
  moreover have "fst ` set (option_calls (script_calls out cfg pl pg k)) =
      {''output_dir'', ''optimize'', ''scheduler'', ''log_level''}"
    unfolding val by simp
  ultimately have 2: "set (map fst (option_calls (calls E p)))
     \<subseteq> {''output_dir'', ''optimize'', ''scheduler'', ''log_level''}"
    unfolding set_map by (rule subset_trans[OF _ equalityD1])
  have 3: "completes E p \<longrightarrow>
      (\<exists>d out. os_path_dirname E (script_file E) = Inr d \<and>
         os_path_join E d ''output'' = Inr out \<and>
         option_calls (calls E p) =
           [(''output_dir'', out), (''optimize'', ''no''), (''scheduler'', ''ASAP''),
            (''log_level'', ''LOG_DEBUG'')])"
  proof
    assume "completes E p"
    then obtain d out cfg pl pg k where
      d: "os_path_dirname E (script_file E) = Inr d"
      and out: "os_path_join E d ''output'' = Inr out"
      and cs: "calls E p = script_calls out cfg pl pg k"
      by (rule run_completes)
    have "option_calls (calls E p) =
           [(''output_dir'', out), (''optimize'', ''no''), (''scheduler'', ''ASAP''),
            (''log_level'', ''LOG_DEBUG'')]"
      by (simp add: cs option_calls_def script_calls_def)
    with d out show "\<exists>d out. os_path_dirname E (script_file E) = Inr d \<and>
         os_path_join E d ''output'' = Inr out \<and>
         option_calls (calls E p) =
           [(''output_dir'', out), (''optimize'', ''no''), (''scheduler'', ''ASAP''),
            (''log_level'', ''LOG_DEBUG'')]"
      by (intro exI[of _ d] exI[of _ out] conjI)
  qed
  from 1 2 3 show ?thesis
    by (intro conjI)
qed

theorem options_set_witness:
  "completes accepting_env home \<and>
   option_calls (calls accepting_env home) =
     [(''output_dir'', ''/OpenQL/ql/arch/crossbar/output''), (''optimize'', ''no''),
      (''scheduler'', ''ASAP''), (''log_level'', ''LOG_DEBUG'')]"
proof -
  from options_set[of accepting_env home] accepting_home obtain d out where
    "os_path_dirname accepting_env (script_file accepting_env) = Inr d"
    "os_path_join accepting_env d ''output'' = Inr out"
    "option_calls (calls accepting_env home) =
           [(''output_dir'', out), (''optimize'', ''no''), (''scheduler'', ''ASAP''),
            (''log_level'', ''LOG_DEBUG'')]"
    by (elim conjE impE exE)
  moreover from this(1) have "d = ''/OpenQL/ql/arch/crossbar''"
    by (simp add: accepting_env_def script_dir)
  ultimately have "out = ''/OpenQL/ql/arch/crossbar/output''"
    by (simp add: accepting_env_def output_path)
  with \<open>option_calls (calls accepting_env home) = _\<close> accepting_home show ?thesis
    by (intro conjI) simp_all
qed

text \<open>
  Claim C4. \<^verbatim>\<open>num_qubits\<close> is 2. In every run, every call that declares a number of
  qubits declares \<^verbatim>\<open>num_qubits\<close>, and every qubit index that a gate call targets is 0
  or 1, hence below \<^verbatim>\<open>num_qubits\<close>. In a run that completes, \<^verbatim>\<open>Program\<close> and
  \<^verbatim>\<open>Kernel\<close> are the calls that declare a number of qubits, both with 2, and the
  indices targeted are 0, 1, 0, 0, 1, 1, 1 in this order.
\<close>

theorem two_qubits:
  "num_qubits = 2 \<and>
   (\<forall>c\<in>set (calls E p).
      (\<forall>n\<in>set (declares c). n = num_qubits) \<and>
      (\<forall>q\<in>set (targets c). q \<in> {0, 1} \<and> 0 \<le> q \<and> q < num_qubits)) \<and>
   (completes E p \<longrightarrow>
      map (\<lambda>c. (name_of c, declares c)) (filter sized (calls E p)) =
        [(''Program'', [2]), (''Kernel'', [2])] \<and>
      concat (map targets (calls E p)) = [0, 1, 0, 0, 1, 1, 1])"
proof -
  obtain out cfg pl pg k where pre: "prefix (calls E p) (script_calls out cfg pl pg k)"
    using run_prefix[of E p] by blast
  then have sub: "set (calls E p) \<subseteq> set (script_calls out cfg pl pg k)"
    by (rule set_mono_prefix)
  have "\<forall>c\<in>set (script_calls out cfg pl pg k).
      (\<forall>n\<in>set (declares c). n = num_qubits) \<and>
      (\<forall>q\<in>set (targets c). q \<in> {0, 1} \<and> 0 \<le> q \<and> q < num_qubits)"
    by (simp add: script_calls_def num_qubits_def)
  with sub have 1: "\<forall>c\<in>set (calls E p).
      (\<forall>n\<in>set (declares c). n = num_qubits) \<and>
      (\<forall>q\<in>set (targets c). q \<in> {0, 1} \<and> 0 \<le> q \<and> q < num_qubits)"
    by (meson subsetD)
  have 2: "completes E p \<longrightarrow>
      map (\<lambda>c. (name_of c, declares c)) (filter sized (calls E p)) =
        [(''Program'', [2]), (''Kernel'', [2])] \<and>
      concat (map targets (calls E p)) = [0, 1, 0, 0, 1, 1, 1]"
  proof
    assume "completes E p"
    then obtain out cfg pl pg k where "calls E p = script_calls out cfg pl pg k"
      by (rule run_completes)
    then show "map (\<lambda>c. (name_of c, declares c)) (filter sized (calls E p)) =
        [(''Program'', [2]), (''Kernel'', [2])] \<and>
      concat (map targets (calls E p)) = [0, 1, 0, 0, 1, 1, 1]"
      by (simp add: script_calls_def)
  qed
  have 0: "num_qubits = 2"
    by (simp add: num_qubits_def)
  from 0 1 2 show ?thesis
    by (intro conjI)
qed

theorem two_qubits_witness:
  "completes accepting_env home \<and>
   concat (map targets (calls accepting_env home)) = [0, 1, 0, 0, 1, 1, 1]"
proof -
  from two_qubits[of accepting_env home] accepting_home
  have "concat (map targets (calls accepting_env home)) = [0, 1, 0, 0, 1, 1, 1]"
    by (elim conjE impE)
  with accepting_home show ?thesis
    by (intro conjI)
qed

text \<open>
  Claim C5. The script handles no error. The log of every run replays against the
  environment, so what a run observes is what \<^verbatim>\<open>os.path\<close> and the library answered;
  every call but the last one returned; the run ends with the exception \<open>e\<close> exactly
  when one of the calls it made raised \<open>e\<close>; and it completes exactly when none of the
  calls it made raised.
\<close>

theorem exceptions_propagate:
  "replay E p (log (snd (run E p))) = Some (proc (snd (run E p))) \<and>
   (\<forall>x\<in>set (butlast (log (snd (run E p)))). raised x = None) \<and>
   (fst (run E p) = Inl e \<longleftrightarrow> (\<exists>x\<in>set (log (snd (run E p))). raised x = Some e)) \<and>
   (completes E p \<longleftrightarrow> (\<forall>x\<in>set (log (snd (run E p))). raised x = None))"
proof -
  define r where "r = fst (run E p)"
  define es where "es = log (snd (run E p))"
  have rep: "replay E p es = Some (proc (snd (run E p)))"
    and early: "\<forall>x\<in>set (butlast es). raised x = None"
    and final: "case r of Inl e \<Rightarrow> es \<noteq> [] \<and> raised (last es) = Some e
                        | Inr _ \<Rightarrow> \<forall>x\<in>set es. raised x = None"
    unfolding r_def es_def by (rule run_transparent[of E p]; assumption)+
  have "(r = Inl e \<longleftrightarrow> (\<exists>x\<in>set es. raised x = Some e)) \<and>
        (r = Inr () \<longleftrightarrow> (\<forall>x\<in>set es. raised x = None))"
  proof (cases r)
    case (Inl e')
    with final have ne: "es \<noteq> []" and lst: "raised (last es) = Some e'"
      by simp_all
    have "x = last es" if "x \<in> set es" and "raised x = Some e" for x
    proof (rule ccontr)
      assume "x \<noteq> last es"
      with that(1) ne have "x \<in> set (butlast es)"
        by (metis append_butlast_last_id rotate1.simps(2) set_ConsD set_rotate1)
      with early that(2) show False
        by simp
    qed
    with lst have "e = e'" if "x \<in> set es" and "raised x = Some e" for x
      using that by fastforce
    moreover have "last es \<in> set es"
      using ne by simp
    ultimately show ?thesis
      using Inl lst by auto
  next
    case (Inr u)
    with final show ?thesis
      by auto
  qed
  with rep early show ?thesis
    unfolding r_def es_def completes_def by blast
qed

theorem exceptions_propagate_witness:
  "fst (run strict_env home) = Inl ''unknown gate pepez'' \<and>
   (\<exists>x\<in>set (log (snd (run strict_env home))). raised x = Some ''unknown gate pepez'') \<and>
   completes accepting_env home \<and>
   filter (\<lambda>x. raised x \<noteq> None) (log (snd (run accepting_env home))) = []"
proof -
  have "\<exists>x\<in>set (log (snd (run strict_env home))). raised x = Some ''unknown gate pepez''"
    using strict_home
    by (rule exceptions_propagate[of strict_env home "''unknown gate pepez''",
          THEN conjunct2, THEN conjunct2, THEN conjunct1, THEN iffD1])
  moreover have "\<forall>x\<in>set (log (snd (run accepting_env home))). raised x = None"
    using accepting_home
    by (rule exceptions_propagate[of accepting_env home "''unknown gate pepez''",
          THEN conjunct2, THEN conjunct2, THEN conjunct2, THEN iffD1])
  then have "filter (\<lambda>x. raised x \<noteq> None) (log (snd (run accepting_env home))) = []"
    by (simp add: filter_empty_conv)
  ultimately show ?thesis
    using strict_home accepting_home by (intro conjI)
qed

text \<open>
  Claim C6. No run makes more than three constructor calls. In a run that completes
  there are exactly three, \<^verbatim>\<open>Platform\<close>, \<^verbatim>\<open>Program\<close> and \<^verbatim>\<open>Kernel\<close> in this order,
  three values are returned by them, and the platform is constructed with the name
  \<^verbatim>\<open>crossbar\<close> and with what \<^verbatim>\<open>os.path.join\<close> returned for the directory of
  \<^verbatim>\<open>__file__\<close> and \<^verbatim>\<open>hardware_config_crossbar.json\<close>.
\<close>

theorem three_objects:
  "length (filter is_constructor (calls E p)) \<le> 3 \<and>
   (completes E p \<longrightarrow>
      (\<exists>d cfg pl. os_path_dirname E (script_file E) = Inr d \<and>
         os_path_join E d ''hardware_config_crossbar.json'' = Inr cfg \<and>
         filter is_constructor (calls E p) =
           [Platform ''crossbar'' cfg, Program ''crossbar_test'' pl 2 0,
            Kernel ''test'' pl 2 0]) \<and>
      length (constructed E p) = 3)"
proof -
  obtain out cfg pl pg k where pre: "prefix (calls E p) (script_calls out cfg pl pg k)"
    using run_prefix[of E p] by blast
  then have "length (filter is_constructor (calls E p))
               \<le> length (filter is_constructor (script_calls out cfg pl pg k))"
    by (rule prefix_filter_length)
  also have "\<dots> = 3"
    by (simp add: script_calls_def)
  finally have 1: "length (filter is_constructor (calls E p)) \<le> 3" .
  have 2: "completes E p \<longrightarrow>
      (\<exists>d cfg pl. os_path_dirname E (script_file E) = Inr d \<and>
         os_path_join E d ''hardware_config_crossbar.json'' = Inr cfg \<and>
         filter is_constructor (calls E p) =
           [Platform ''crossbar'' cfg, Program ''crossbar_test'' pl 2 0,
            Kernel ''test'' pl 2 0]) \<and>
      length (constructed E p) = 3"
  proof (intro impI conjI)
    assume "completes E p"
    then obtain d out cfg pl pg k where
      d: "os_path_dirname E (script_file E) = Inr d"
      and cfg: "os_path_join E d ''hardware_config_crossbar.json'' = Inr cfg"
      and cs: "calls E p = script_calls out cfg pl pg k"
      and objs: "constructed E p = [pl, pg, k]"
      by (rule run_completes)
    have "filter is_constructor (calls E p) =
           [Platform ''crossbar'' cfg, Program ''crossbar_test'' pl 2 0,
            Kernel ''test'' pl 2 0]"
      by (simp add: cs script_calls_def)
    with d cfg show "\<exists>d cfg pl. os_path_dirname E (script_file E) = Inr d \<and>
         os_path_join E d ''hardware_config_crossbar.json'' = Inr cfg \<and>
         filter is_constructor (calls E p) =
           [Platform ''crossbar'' cfg, Program ''crossbar_test'' pl 2 0,
            Kernel ''test'' pl 2 0]"
      by (intro exI[of _ d] exI[of _ cfg] exI[of _ pl] conjI)
    show "length (constructed E p) = 3"
      by (simp add: objs)
  qed
  from 1 2 show ?thesis
    by (intro conjI)
qed

theorem three_objects_witness:
  "completes accepting_env home \<and> length (constructed accepting_env home) = 3"
proof -
  have "length (constructed accepting_env home) = 3"
    using accepting_home
    by (rule three_objects[of accepting_env home, THEN conjunct2, THEN mp, THEN conjunct2])
  with accepting_home show ?thesis
    by (intro conjI)
qed

text \<open>
  Claim C7. Take two runs with the same \<^verbatim>\<open>__file__\<close> and the same \<^verbatim>\<open>os.path\<close>, against
  any two libraries in any two process states, in neither of which a call into the
  library raises. Then the two traces of library calls agree in the function names, in
  every argument that is not a value returned by the library, and in the order; both are
  instances of one list of calls in which each such value is named by the position of the
  constructor call that returned it; and the traces are equal when the constructors
  returned the same values in both runs.
\<close>

theorem same_trace:
  fixes E1 :: "('o, 's1, 'e) env" and E2 :: "('o, 's2, 'e) env"
  assumes "script_file E1 = script_file E2"
    and "os_path_dirname E1 = os_path_dirname E2"
    and "os_path_join E1 = os_path_join E2"
    and "\<not> library_raised E1 p1"
    and "\<not> library_raised E2 p2"
  shows "map (map_call (\<lambda>_. ())) (calls E1 p1) = map (map_call (\<lambda>_. ())) (calls E2 p2) \<and>
         (\<exists>T. calls E1 p1 = map (map_call (\<lambda>i. constructed E1 p1 ! i)) T \<and>
              calls E2 p2 = map (map_call (\<lambda>i. constructed E2 p2 ! i)) T) \<and>
         (constructed E1 p1 = constructed E2 p2 \<longrightarrow> calls E1 p1 = calls E2 p2)"
proof -
  have "script_paths E1 = script_paths E2"
    unfolding script_paths_def assms(1-3) by (rule refl)
  then have T: "template E1 = template E2"
    by (simp add: template_def)
  have c1: "calls E1 p1 = map (map_call (\<lambda>i. constructed E1 p1 ! i)) (template E1)"
    using assms(4) by (rule calls_template)
  have c2: "calls E2 p2 = map (map_call (\<lambda>i. constructed E2 p2 ! i)) (template E1)"
    using assms(5) unfolding T by (rule calls_template)
  have "map (map_call (\<lambda>_. ())) (calls E1 p1) = map (map_call (\<lambda>_. ())) (template E1)"
    by (subst c1) (simp add: call.map_comp comp_def)
  moreover have "map (map_call (\<lambda>_. ())) (calls E2 p2) = map (map_call (\<lambda>_. ())) (template E1)"
    by (subst c2) (simp add: call.map_comp comp_def)
  ultimately have 1: "map (map_call (\<lambda>_. ())) (calls E1 p1) =
                      map (map_call (\<lambda>_. ())) (calls E2 p2)"
    by simp
  from c1 c2 have 2: "\<exists>T. calls E1 p1 = map (map_call (\<lambda>i. constructed E1 p1 ! i)) T \<and>
              calls E2 p2 = map (map_call (\<lambda>i. constructed E2 p2 ! i)) T"
    by (intro exI[of _ "template E1"] conjI)
  have 3: "constructed E1 p1 = constructed E2 p2 \<longrightarrow> calls E1 p1 = calls E2 p2"
  proof
    assume "constructed E1 p1 = constructed E2 p2"
    then have "map (map_call (\<lambda>i. constructed E1 p1 ! i)) (template E1) =
               map (map_call (\<lambda>i. constructed E2 p2 ! i)) (template E1)"
      by simp
    then show "calls E1 p1 = calls E2 p2"
      unfolding c1[symmetric] c2[symmetric] .
  qed
  from 1 2 3 show ?thesis
    by (intro conjI)
qed

theorem same_trace_witness:
  "\<not> library_raised accepting_env home \<and> \<not> library_raised accepting_env elsewhere \<and>
   ext home \<noteq> ext elsewhere \<and>
   map (map_call (\<lambda>_. ())) (calls accepting_env home) =
     map (map_call (\<lambda>_. ())) (calls accepting_env elsewhere)"
proof -
  have 1: "\<not> library_raised accepting_env home"
    using accepting_home by (rule completes_quiet)
  have 2: "\<not> library_raised accepting_env elsewhere"
    using accepting_elsewhere by (rule completes_quiet)
  have 3: "ext home \<noteq> ext elsewhere"
    by (simp add: home_def elsewhere_def)
  have "map (map_call (\<lambda>_. ())) (calls accepting_env home) =
     map (map_call (\<lambda>_. ())) (calls accepting_env elsewhere)"
    by (rule same_trace[OF refl refl refl 1 2, THEN conjunct1])
  with 1 2 3 show ?thesis
    by (intro conjI)
qed

text \<open>
  The traces themselves need not be equal, since the values that the constructors return
  are the library's: the stand-in that numbers what it returns hands out 4, 5 and 6 in one
  process state and 11, 12 and 13 in another, and the calls that pass these values back
  differ, although \<^verbatim>\<open>__file__\<close> is the same and no call raises.
\<close>

theorem same_trace_counterexample:
  "script_file accepting_env = script_file accepting_env \<and>
   \<not> library_raised accepting_env home \<and>
   \<not> library_raised accepting_env elsewhere \<and>
   calls accepting_env home \<noteq> calls accepting_env elsewhere"
proof -
  have "\<not> library_raised accepting_env home"
    using accepting_home by (rule completes_quiet)
  moreover have "\<not> library_raised accepting_env elsewhere"
    using accepting_elsewhere by (rule completes_quiet)
  moreover have "calls accepting_env home \<noteq> calls accepting_env elsewhere"
    unfolding accepting_home_calls accepting_elsewhere_calls
    by (simp add: script_calls_def)
  ultimately show ?thesis
    by (intro conjI refl)
qed

text \<open>
  Claim C8. \<^verbatim>\<open>num_qubits\<close> is 2 and \<^verbatim>\<open>num_creg\<close> is 0. In a run that completes, the
  calls that take a platform and sizes are \<^verbatim>\<open>Program\<close> and \<^verbatim>\<open>Kernel\<close>, and both are
  given the value that the call \<^verbatim>\<open>Platform("crossbar", ...)\<close> returned, \<^verbatim>\<open>num_qubits\<close>
  and \<^verbatim>\<open>num_creg\<close>.
\<close>

theorem same_platform_and_sizes:
  "num_qubits = 2 \<and> num_creg = 0 \<and>
   (completes E p \<longrightarrow>
      (\<exists>cfg pl. LibCall (Platform ''crossbar'' cfg) (Inr pl) \<in> set (log (snd (run E p))) \<and>
         filter sized (calls E p) =
           [Program ''crossbar_test'' pl num_qubits num_creg,
            Kernel ''test'' pl num_qubits num_creg]))"
proof -
  have 1: "num_qubits = 2" and 2: "num_creg = 0"
    by (simp_all add: num_qubits_def num_creg_def)
  have 3: "completes E p \<longrightarrow>
      (\<exists>cfg pl. LibCall (Platform ''crossbar'' cfg) (Inr pl) \<in> set (log (snd (run E p))) \<and>
         filter sized (calls E p) =
           [Program ''crossbar_test'' pl num_qubits num_creg,
            Kernel ''test'' pl num_qubits num_creg])"
  proof
    assume "completes E p"
    then obtain out cfg pl pg k where
      pl: "LibCall (Platform ''crossbar'' cfg) (Inr pl) \<in> set (log (snd (run E p)))"
      and cs: "calls E p = script_calls out cfg pl pg k"
      by (rule run_completes)
    have "filter sized (calls E p) =
           [Program ''crossbar_test'' pl num_qubits num_creg,
            Kernel ''test'' pl num_qubits num_creg]"
      by (simp add: cs script_calls_def num_qubits_def num_creg_def)
    with pl show "\<exists>cfg pl. LibCall (Platform ''crossbar'' cfg) (Inr pl) \<in> set (log (snd (run E p))) \<and>
         filter sized (calls E p) =
           [Program ''crossbar_test'' pl num_qubits num_creg,
            Kernel ''test'' pl num_qubits num_creg]"
      by (intro exI[of _ cfg] exI[of _ pl] conjI)
  qed
  from 1 2 3 show ?thesis
    by (intro conjI)
qed

theorem same_platform_and_sizes_witness:
  "completes accepting_env home \<and>
   (\<exists>cfg pl. LibCall (Platform ''crossbar'' cfg) (Inr pl)
               \<in> set (log (snd (run accepting_env home))) \<and>
      filter sized (calls accepting_env home) =
        [Program ''crossbar_test'' pl num_qubits num_creg,
         Kernel ''test'' pl num_qubits num_creg])"
proof -
  have "\<exists>cfg pl. LibCall (Platform ''crossbar'' cfg) (Inr pl)
               \<in> set (log (snd (run accepting_env home))) \<and>
      filter sized (calls accepting_env home) =
        [Program ''crossbar_test'' pl num_qubits num_creg,
         Kernel ''test'' pl num_qubits num_creg]"
    using accepting_home
    by (rule same_platform_and_sizes[of accepting_env home, THEN conjunct2, THEN conjunct2,
          THEN mp])
  with accepting_home show ?thesis
    by (intro conjI)
qed




text \<open>
  Claim C10. Take two runs with the same \<^verbatim>\<open>__file__\<close> and the same \<^verbatim>\<open>os.path\<close>, in
  any two process states (in particular with different working directories). The paths
  passed to the library in either run are an initial segment of the paths computed from
  \<^verbatim>\<open>__file__\<close>; when both runs complete, the same two paths are passed in both: what
  \<^verbatim>\<open>os.path.join\<close> returned for the directory of \<^verbatim>\<open>__file__\<close> and \<^verbatim>\<open>output\<close>, and for
  that directory and \<^verbatim>\<open>hardware_config_crossbar.json\<close>.
\<close>

theorem paths_from_script_directory:
  fixes E1 :: "('o1, 's1, 'e) env" and E2 :: "('o2, 's2, 'e) env"
  assumes "script_file E1 = script_file E2"
    and "os_path_dirname E1 = os_path_dirname E2"
    and "os_path_join E1 = os_path_join E2"
  shows "prefix (paths_passed (calls E1 p1)) (script_paths E1) \<and>
         prefix (paths_passed (calls E2 p2)) (script_paths E1) \<and>
         (completes E1 p1 \<and> completes E2 p2 \<longrightarrow>
            paths_passed (calls E1 p1) = paths_passed (calls E2 p2) \<and>
            (\<exists>d out cfg. os_path_dirname E1 (script_file E1) = Inr d \<and>
               os_path_join E1 d ''output'' = Inr out \<and>
               os_path_join E1 d ''hardware_config_crossbar.json'' = Inr cfg \<and>
               paths_passed (calls E1 p1) = [out, cfg]))"
proof -
  have same: "script_paths E2 = script_paths E1"
    unfolding script_paths_def assms by (rule refl)
  have 1: "prefix (paths_passed (calls E1 p1)) (script_paths E1)"
    by (rule run_paths_prefix)
  have "prefix (paths_passed (calls E2 p2)) (script_paths E2)"
    by (rule run_paths_prefix)
  then have 2: "prefix (paths_passed (calls E2 p2)) (script_paths E1)"
    unfolding same .
  have 3: "completes E1 p1 \<and> completes E2 p2 \<longrightarrow>
            paths_passed (calls E1 p1) = paths_passed (calls E2 p2) \<and>
            (\<exists>d out cfg. os_path_dirname E1 (script_file E1) = Inr d \<and>
               os_path_join E1 d ''output'' = Inr out \<and>
               os_path_join E1 d ''hardware_config_crossbar.json'' = Inr cfg \<and>
               paths_passed (calls E1 p1) = [out, cfg])"
  proof (intro impI conjI)
    assume both: "completes E1 p1 \<and> completes E2 p2"
    then have p1: "paths_passed (calls E1 p1) = script_paths E1"
      and p2: "paths_passed (calls E2 p2) = script_paths E2"
      by (simp_all add: run_paths_complete)
    then show "paths_passed (calls E1 p1) = paths_passed (calls E2 p2)"
      by (simp add: same)
    from both obtain d out cfg pl pg k where
      d: "os_path_dirname E1 (script_file E1) = Inr d"
      and out: "os_path_join E1 d ''output'' = Inr out"
      and cfg: "os_path_join E1 d ''hardware_config_crossbar.json'' = Inr cfg"
      by (rule run_completes[of E1 p1, OF conjunct1])
    then have "script_paths E1 = [out, cfg]"
      by (simp add: script_paths_def)
    with p1 have "paths_passed (calls E1 p1) = [out, cfg]"
      by simp
    with d out cfg show "\<exists>d out cfg. os_path_dirname E1 (script_file E1) = Inr d \<and>
               os_path_join E1 d ''output'' = Inr out \<and>
               os_path_join E1 d ''hardware_config_crossbar.json'' = Inr cfg \<and>
               paths_passed (calls E1 p1) = [out, cfg]"
      by (intro exI[of _ d] exI[of _ out] exI[of _ cfg] conjI)
  qed
  from 1 2 3 show ?thesis
    by (intro conjI)
qed

theorem paths_from_script_directory_witness:
  "cwd home \<noteq> cwd elsewhere \<and>
   completes accepting_env home \<and> completes accepting_env elsewhere \<and>
   paths_passed (calls accepting_env home) = paths_passed (calls accepting_env elsewhere)"
proof -
  have 1: "cwd home \<noteq> cwd elsewhere"
    by (simp add: home_def elsewhere_def)
  have both: "completes accepting_env home \<and> completes accepting_env elsewhere"
    using accepting_home accepting_elsewhere by (intro conjI)
  have "paths_passed (calls accepting_env home) = paths_passed (calls accepting_env elsewhere)"
    using both
    by (rule paths_from_script_directory[OF refl refl refl, THEN conjunct2, THEN conjunct2,
          THEN mp, THEN conjunct1])
  with 1 both show ?thesis
    by (intro conjI) simp_all
qed

end
